theory Spec2Isabelle
  imports Main
begin

section \<open>Strings and the JavaScript string primitives the transforms use\<close>

text \<open>
  A JavaScript string is modelled as a \<^typ>\<open>string\<close>: a list of code units, restricted to the
  code units below 256. The transforms compare characters only with ASCII ones (line feed, colon,
  space, NUL, sign and digits); the one exception is the white space that \<open>parseInt\<close> skips, of
  which the members below 256 are kept.
\<close>

abbreviation NL :: char where
  "NL \<equiv> CHR 0x0A"

abbreviation colon :: char where
  "colon \<equiv> CHR '':''"

text \<open>
  \<open>String.prototype.split(sep)\<close> for a string separator: the separator is searched from the
  left, matches do not overlap, and the result always has at least one part when the separator is
  not empty. With the empty separator the string is cut into its code units.
\<close>

definition cons_head :: "char \<Rightarrow> string list \<Rightarrow> string list" where
  "cons_head c ps = (case ps of [] \<Rightarrow> [[c]] | p # qs \<Rightarrow> (c # p) # qs)"

function js_split :: "string \<Rightarrow> string \<Rightarrow> string list" where
  "js_split sep [] = (if sep = [] then [] else [[]])"
| "js_split sep (c # cs) =
     (if sep = [] then [c] # js_split sep cs
      else if take (length sep) (c # cs) = sep
           then [] # js_split sep (drop (length sep) (c # cs))
           else cons_head c (js_split sep cs))"
  by pat_completeness auto
termination
  by (relation "measure (\<lambda>(sep, s). length s)") auto

text \<open>\<open>Array.prototype.join(sep)\<close>.\<close>

fun js_join :: "string \<Rightarrow> string list \<Rightarrow> string" where
  "js_join sep [] = []"
| "js_join sep [x] = x"
| "js_join sep (x # y # ys) = x @ sep @ js_join sep (y # ys)"

text \<open>\<open>String.prototype.indexOf\<close> for a single character; \<open>None\<close> stands for \<open>-1\<close>.\<close>

fun js_indexOf :: "char \<Rightarrow> string \<Rightarrow> nat option" where
  "js_indexOf c [] = None"
| "js_indexOf c (x # xs) =
     (if x = c then Some 0 else map_option Suc (js_indexOf c xs))"

text \<open>
  White space as \<open>parseInt\<close> and \<open>trim\<close> see it (tab, line feed, vertical tab, form feed,
  carriage return, space, no-break space).
\<close>

definition js_whitespace :: "char \<Rightarrow> bool" where
  "js_whitespace c \<longleftrightarrow>
     c \<in> set [CHR 0x09, CHR 0x0A, CHR 0x0B, CHR 0x0C, CHR 0x0D, CHR 0x20, CHR 0xA0]"

definition digit_value :: "char \<Rightarrow> int option" where
  "digit_value c =
     map_of [(CHR ''0'', 0), (CHR ''1'', 1), (CHR ''2'', 2), (CHR ''3'', 3), (CHR ''4'', 4),
             (CHR ''5'', 5), (CHR ''6'', 6), (CHR ''7'', 7), (CHR ''8'', 8), (CHR ''9'', 9)] c"

definition is_digit :: "char \<Rightarrow> bool" where
  "is_digit c \<longleftrightarrow> digit_value c \<noteq> None"

definition digits_value :: "string \<Rightarrow> int" where
  "digits_value ds = foldl (\<lambda>acc d. 10 * acc + the (digit_value d)) 0 ds"

text \<open>
  \<open>Number.parseInt(value, 10)\<close>: leading white space is skipped, one sign is read, then the
  longest run of decimal digits; without a digit the result is \<open>NaN\<close>, here \<open>None\<close>. Whatever
  follows the digits is ignored. The result is the mathematical integer (the rounding of a
  number beyond \<open>2^53\<close> to a double, and the sign of zero, are not modelled).
\<close>

definition js_parseInt :: "string \<Rightarrow> int option" where
  "js_parseInt v =
     (let s = dropWhile js_whitespace v;
          neg = (s \<noteq> [] \<and> hd s = CHR ''-'');
          s' = (if s \<noteq> [] \<and> (hd s = CHR ''+'' \<or> hd s = CHR ''-'') then tl s else s);
          z = takeWhile is_digit s'
      in if z = [] then None
         else Some (if neg then - digits_value z else digits_value z))"

section \<open>The events and the two transform streams (transforms.ts)\<close>

record sse_message =
  event :: string
  data :: string
  id' :: "string option"
  retry :: "int option"

text \<open>
  \<open>createSplitStream\<close>. The state of the transform is its \<open>buffer\<close>. \<open>isValidString\<close> comes
  from \<open>utils.ts\<close>, which is not among the sources: the transform takes it as the parameter
  \<open>valid\<close>. \<open>split_transform\<close> returns the enqueued frames and the new buffer.
\<close>

definition split_transform ::
  "(string \<Rightarrow> bool) \<Rightarrow> string \<Rightarrow> string \<Rightarrow> string list \<times> string" where
  "split_transform valid buffer chunk =
     (let parts = js_split [NL, NL] (buffer @ chunk)
      in (filter valid (butlast parts), last parts))"

definition split_flush :: "(string \<Rightarrow> bool) \<Rightarrow> string \<Rightarrow> string list" where
  "split_flush valid buffer = (if valid buffer then [buffer] else [])"

text \<open>
  The frames that the split stream enqueues for a sequence of chunks written to it and then
  closed: \<open>transform\<close> for every chunk in turn, then \<open>flush\<close>.
\<close>

fun split_run :: "(string \<Rightarrow> bool) \<Rightarrow> string \<Rightarrow> string list \<Rightarrow> string list" where
  "split_run valid buffer [] = split_flush valid buffer"
| "split_run valid buffer (chunk # chunks) =
     (case split_transform valid buffer chunk of
        (out, buffer') \<Rightarrow> out @ split_run valid buffer' chunks)"

definition createSplitStream :: "(string \<Rightarrow> bool) \<Rightarrow> string list \<Rightarrow> string list" where
  "createSplitStream valid chunks = split_run valid [] chunks"

text \<open>
  Modelled from the spec: \<open>isValidString\<close> of \<open>utils.ts\<close>, which is missing from the sources.
  The spec says that every frame is non-empty after trimming and that whitespace-only
  frames are discarded.
\<close>

definition isValidString :: "string \<Rightarrow> bool" where
  "isValidString s \<longleftrightarrow> dropWhile js_whitespace s \<noteq> []"

text \<open>
  \<open>createParseStream\<close>. The four local variables of \<open>transform\<close> are the record \<open>fields\<close>;
  \<open>parse_line\<close> is the body of the loop over the lines.
\<close>

record fields =
  f_event :: string
  f_data :: "string list"
  f_id :: "string option"
  f_retry :: "int option"

definition init_fields :: fields where
  "init_fields = \<lparr>f_event = ''message'', f_data = [], f_id = None, f_retry = None\<rparr>"

definition strip_space :: "string \<Rightarrow> string" where
  "strip_space v = (if v \<noteq> [] \<and> hd v = CHR '' '' then tl v else v)"

definition set_field :: "fields \<Rightarrow> string \<Rightarrow> string \<Rightarrow> fields" where
  "set_field fs field v =
     (if field = ''event'' then fs\<lparr>f_event := v\<rparr>
      else if field = ''data'' then fs\<lparr>f_data := f_data fs @ [v]\<rparr>
      else if field = ''id'' then (if CHR 0x00 \<in> set v then fs else fs\<lparr>f_id := Some v\<rparr>)
      else if field = ''retry'' then
        (case js_parseInt v of None \<Rightarrow> fs | Some n \<Rightarrow> fs\<lparr>f_retry := Some n\<rparr>)
      else fs)"

definition parse_line :: "fields \<Rightarrow> string \<Rightarrow> fields" where
  "parse_line fs line =
     (if line = [] \<or> hd line = colon then fs
      else case js_indexOf colon line of
             None \<Rightarrow> fs
           | Some colonIndex \<Rightarrow>
               set_field fs (take colonIndex line) (strip_space (drop (colonIndex + 1) line)))"

definition build_message :: "fields \<Rightarrow> sse_message option" where
  "build_message fs =
     (if length (f_data fs) > 0
      then Some \<lparr>event = f_event fs, data = js_join [NL] (f_data fs),
                 id' = f_id fs, retry = f_retry fs\<rparr>
      else None)"

definition parse_frame :: "string \<Rightarrow> sse_message option" where
  "parse_frame partChunk = build_message (foldl parse_line init_fields (js_split [NL] partChunk))"

text \<open>The events the parse stream enqueues for one frame, and for a sequence of frames.\<close>

definition parse_transform :: "string \<Rightarrow> sse_message list" where
  "parse_transform partChunk = (case parse_frame partChunk of None \<Rightarrow> [] | Some m \<Rightarrow> [m])"

definition createParseStream :: "string list \<Rightarrow> sse_message list" where
  "createParseStream frames = concat (map parse_transform frames)"

text \<open>
  The pipe of \<open>connect\<close>: text chunks through the split stream and then the parse stream, for a
  body that is read to its end.
\<close>

definition pipeline :: "(string \<Rightarrow> bool) \<Rightarrow> string list \<Rightarrow> sse_message list" where
  "pipeline valid chunks = createParseStream (createSplitStream valid chunks)"

section \<open>The iterator \<open>BetterSSEStream\<close> (sse-stream.ts)\<close>

subsection \<open>Options, state and the world outside\<close>

text \<open>
  What can be thrown: a \<open>TypeError\<close> (the rejection of \<open>fetch\<close> on a network failure, the
  error of a stream that fails while it is read, a string that is no URL), the \<open>DOMException\<close>
  named \<open>AbortError\<close>, the three \<open>Error\<close>s the class creates itself, and a thrown value that
  is no instance of \<open>Error\<close>. A \<open>DOMException\<close> is an instance of \<open>Error\<close>.
\<close>

datatype exn =
    TypeError
  | AbortError
  | HttpError nat
  | BodyNull
  | ConnectFailed
  | NonError

definition instanceof_Error :: "exn \<Rightarrow> bool" where
  "instanceof_Error e \<longleftrightarrow> e \<noteq> NonError"

text \<open>A JavaScript number that is an integer or \<open>Infinity\<close> (for \<open>maxRetries\<close>).\<close>

datatype jsnum = Finite int | Infinity

fun less_jsnum :: "int \<Rightarrow> jsnum \<Rightarrow> bool" where
  "less_jsnum n (Finite m) = (n < m)"
| "less_jsnum n Infinity = True"

text \<open>
  The \<open>url\<close> option as the \<open>URL\<close> constructor sees it: absent or empty, not parseable, or
  parsed with its protocol.
\<close>

datatype url = NoUrl | BadUrl | Url string

text \<open>
  \<open>SSEStreamOptions\<close>. \<open>abortController\<close> says whether a controller was supplied; the
  \<open>aborted\<close> flag of its signal changes with time and is kept in the world. \<open>headers\<close> is the
  \<open>Headers\<close> object made from the custom headers, a map from header names to values. An absent
  option is \<open>None\<close>.
\<close>

record options =
  url :: url
  withCredentials :: "bool option"
  abortController :: bool
  retryStrategy :: "bool option"
  initialRetryDelay :: "int option"
  maxRetryDelay :: "int option"
  maxRetries :: "jsnum option"
  headers :: "string \<rightharpoonup> string"
  lastEventId :: "string option"

text \<open>
  The processed stream of one connection as its reader sees it: the events still to be read,
  and what a read gives once they are used up. For a body that is read to its end the events
  are \<^const>\<open>pipeline\<close> of its text chunks. A stream that \<open>Hangs\<close> keeps the connection open
  and sends nothing more, so a read never settles. A stream whose connection the consumer
  aborts is \<open>Errored AbortError\<close> after the events that the pipe still delivers.
\<close>

datatype ending = Closed | Errored exn | Hangs

record sse_stream =
  queued :: "sse_message list"
  ending :: ending

text \<open>
  What the world answers at the points where the iterator waits: to a \<open>fetch\<close> (a rejection,
  or a response with its status and its piped body, \<open>None\<close> for a null body), and to a backoff
  timer (it fires, or the consumer triggers the abort signal while it runs). The answers still
  to come are lists; when a list is used up the answer never comes and the call stays
  \<open>Pending\<close>. The \<open>log\<close> records, in order, the requests sent (with the value of their
  \<open>Last-Event-ID\<close> header), the timers set (with their delay), the events handed to the
  consumer and the cancellations of a reader.
\<close>

datatype fetch_outcome = Rejects exn | Response nat "sse_stream option"

datatype timer_outcome = Fires | AbortDuringWait

text \<open>
  The value of the \<open>delay\<close> that \<open>reconnect\<close> computes is a double: an integer, an infinity
  or \<open>NaN\<close> (the sign of zero is not kept). \<open>Math.pow(2, k)\<close> is exact up to \<open>k = 1023\<close> and
  \<open>Infinity\<close> beyond. The product of an integer and a power of two is exact as long as it stays
  below \<open>double_limit\<close> in size and overflows to an infinity otherwise; zero times \<open>Infinity\<close> is
  \<open>NaN\<close>. \<open>Math.min\<close> gives \<open>NaN\<close> when an argument is \<open>NaN\<close>. The two delay options are
  whole numbers of milliseconds, of type \<^typ>\<open>int\<close>; those among them that are doubles are the
  values that the code can be given.
\<close>

datatype number = Num int | PlusInfinity | MinusInfinity | NaN

definition js_pow2 :: "nat \<Rightarrow> number" where
  "js_pow2 k = (if k \<le> 1023 then Num (2 ^ k) else PlusInfinity)"

definition double_limit :: int where
  "double_limit = 2 ^ 1024"

fun js_times :: "int \<Rightarrow> number \<Rightarrow> number" where
  "js_times a (Num b) =
     (if double_limit \<le> a * b then PlusInfinity
      else if a * b \<le> - double_limit then MinusInfinity
      else Num (a * b))"
| "js_times a PlusInfinity =
     (if a = 0 then NaN else if 0 < a then PlusInfinity else MinusInfinity)"
| "js_times a MinusInfinity =
     (if a = 0 then NaN else if 0 < a then MinusInfinity else PlusInfinity)"
| "js_times a NaN = NaN"

fun js_min :: "number \<Rightarrow> int \<Rightarrow> number" where
  "js_min (Num a) m = Num (min a m)"
| "js_min PlusInfinity m = Num m"
| "js_min MinusInfinity m = MinusInfinity"
| "js_min NaN m = NaN"

datatype effect = Request "string option" | Timeout number | Emit sse_message | Cancel

record world =
  fetches :: "fetch_outcome list"
  timers :: "timer_outcome list"
  aborted :: bool
  log :: "effect list"

text \<open>
  The fields of the class. Every reader is made by \<open>this.stream.getReader()\<close> and is dropped
  before or together with the stream, so \<open>reader\<close> is one bit: whether a reader of \<open>stream\<close>
  is held.
\<close>

record client =
  retryCount :: nat
  currentLastEventId :: "string option"
  stream :: "sse_stream option"
  reader :: bool

datatype 'a outcome = Returns 'a | Throws exn | Pending

datatype iter_result = Yield sse_message | Done

definition constructor :: "options \<Rightarrow> client" where
  "constructor opts =
     \<lparr>retryCount = 0, currentLastEventId = lastEventId opts, stream = None, reader = False\<rparr>"

subsection \<open>connect and reconnect\<close>

text \<open>The truthiness of an optional string: absent and empty are falsy.\<close>

definition truthy :: "string option \<Rightarrow> bool" where
  "truthy x = (case x of None \<Rightarrow> False | Some v \<Rightarrow> v \<noteq> [])"

text \<open>
  \<open>Headers.set(name, value)\<close> of the platform: the white space around the value (tab, line
  feed, carriage return, space) is removed; what remains is stored when it is a header value,
  that is, when it has no NUL, line feed or carriage return in it, and otherwise \<open>set\<close> throws
  a \<open>TypeError\<close>. (It also throws on a code unit above 255, which a \<^typ>\<open>string\<close> does not
  have.) A cursor is \<open>sendable\<close> when \<open>connect\<close> gets through its headers without a throw:
  the cursor is falsy, so that \<open>set\<close> is not called for it, or \<open>set\<close> accepts it.
  \<open>request_headers\<close> are the headers of the request in that case. The headers of the options
  are a map that \<open>new Headers\<close> accepts, with the names in the spelling of the code.
\<close>

definition http_whitespace :: "char \<Rightarrow> bool" where
  "http_whitespace c \<longleftrightarrow> c \<in> set [CHR 0x09, CHR 0x0A, CHR 0x0D, CHR 0x20]"

definition normalize_value :: "string \<Rightarrow> string" where
  "normalize_value v = rev (dropWhile http_whitespace (rev (dropWhile http_whitespace v)))"

definition header_value :: "string \<Rightarrow> bool" where
  "header_value v \<longleftrightarrow> CHR 0x00 \<notin> set v \<and> CHR 0x0A \<notin> set v \<and> CHR 0x0D \<notin> set v"

definition sendable :: "string option \<Rightarrow> bool" where
  "sendable cursor =
     (case cursor of
        None \<Rightarrow> True
      | Some v \<Rightarrow> v = [] \<or> header_value (normalize_value v))"

definition request_headers :: "options \<Rightarrow> client \<Rightarrow> (string \<rightharpoonup> string)" where
  "request_headers opts s =
     (let h = (headers opts)(''Accept'' \<mapsto> ''text/event-stream'', ''Cache-Control'' \<mapsto> ''no-cache'')
      in if truthy (currentLastEventId s)
         then h(''Last-Event-ID'' \<mapsto> normalize_value (the (currentLastEventId s)))
         else h)"

definition signal_aborted :: "options \<Rightarrow> world \<Rightarrow> bool" where
  "signal_aborted opts w \<longleftrightarrow> abortController opts \<and> aborted w"

definition response_ok :: "nat \<Rightarrow> bool" where
  "response_ok status \<longleftrightarrow> 200 \<le> status \<and> status \<le> 299"

definition retry_enabled :: "options \<Rightarrow> bool" where
  "retry_enabled opts \<longleftrightarrow> retryStrategy opts = Some True"

definition shouldRetry :: "options \<Rightarrow> client \<Rightarrow> bool" where
  "shouldRetry opts s =
     less_jsnum (int (retryCount s)) (case maxRetries opts of None \<Rightarrow> Infinity | Some m \<Rightarrow> m)"

text \<open>
  The \<open>try\<close> block of \<open>connect\<close>: the URL, the headers, the \<open>fetch\<close> and the checks of the
  response. When \<open>Headers.set\<close> throws, no \<open>fetch\<close> is made. A \<open>fetch\<close> whose signal is
  already aborted rejects at once and sends no request. An \<open>AbortError\<close> comes from the signal
  only, so the signal is aborted after one.
\<close>

definition connect_try :: "options \<Rightarrow> client \<Rightarrow> world \<Rightarrow> unit outcome \<times> client \<times> world" where
  "connect_try opts s w =
     (case url opts of
        Url protocol \<Rightarrow>
          if \<not> sendable (currentLastEventId s) then (Throws TypeError, s, w)
          else if signal_aborted opts w then (Throws AbortError, s, w)
          else (case fetches w of
                  [] \<Rightarrow> (Pending, s, w)
                | f # fs \<Rightarrow>
                    (let w1 = w\<lparr>fetches := fs,
                                 log := log w @ [Request (request_headers opts s ''Last-Event-ID'')]\<rparr>
                     in case f of
                          Rejects e \<Rightarrow> (Throws e, s, w1\<lparr>aborted := aborted w1 \<or> e = AbortError\<rparr>)
                        | Response status b \<Rightarrow>
                            if \<not> response_ok status then (Throws (HttpError status), s, w1)
                            else (case b of
                                    None \<Rightarrow> (Throws BodyNull, s, w1)
                                  | Some st \<Rightarrow>
                                      (Returns (), s\<lparr>retryCount := 0, stream := Some st\<rparr>, w1))))
      | _ \<Rightarrow> (Throws TypeError, s, w))"

definition backoff_delay :: "options \<Rightarrow> nat \<Rightarrow> number" where
  "backoff_delay opts n =
     (let initialDelay = (case initialRetryDelay opts of None \<Rightarrow> 1000 | Some d \<Rightarrow> d);
          maxDelay = (case maxRetryDelay opts of None \<Rightarrow> 30000 | Some d \<Rightarrow> d)
      in js_min (js_times initialDelay (js_pow2 (n - 1))) maxDelay)"

text \<open>
  \<open>reconnect\<close> up to its call of \<open>connect\<close>: the counter, the delay, the check of the signal and
  the wait. The abort listener is only added when there is a controller.
\<close>

definition reconnect_wait :: "options \<Rightarrow> client \<Rightarrow> world \<Rightarrow> unit outcome \<times> client \<times> world" where
  "reconnect_wait opts s w =
     (let s1 = s\<lparr>retryCount := retryCount s + 1\<rparr>;
          delay = backoff_delay opts (retryCount s1)
      in if signal_aborted opts w then (Throws AbortError, s1, w)
         else (case timers w of
                 [] \<Rightarrow> (Pending, s1, w)
               | t # ts \<Rightarrow>
                   (let w1 = w\<lparr>timers := ts, log := log w @ [Timeout delay]\<rparr>
                    in case t of
                         Fires \<Rightarrow> (Returns (), s1, w1)
                       | AbortDuringWait \<Rightarrow>
                           if abortController opts
                           then (Throws AbortError, s1, w1\<lparr>aborted := True\<rparr>)
                           else (Returns (), s1, w1))))"

function connect :: "options \<Rightarrow> client \<Rightarrow> world \<Rightarrow> unit outcome \<times> client \<times> world"
  and reconnect :: "options \<Rightarrow> client \<Rightarrow> world \<Rightarrow> unit outcome \<times> client \<times> world" where
  "connect opts s w =
     (case connect_try opts s w of
        (Throws e, s1, w1) \<Rightarrow>
          if instanceof_Error e then
            (if retry_enabled opts \<and> shouldRetry opts s1 then reconnect opts s1 w1
             else (Throws e, s1, w1))
          else (Returns (), s1, w1)
      | r \<Rightarrow> r)"
| "reconnect opts s w =
     (case reconnect_wait opts s w of
        (Returns u, s1, w1) \<Rightarrow> connect opts s1 w1
      | r \<Rightarrow> r)"
  by pat_completeness auto
termination
proof (relation "measure (\<lambda>x. case x of
          Inl (opts, s, w) \<Rightarrow> 2 * length (timers w) + 1
        | Inr (opts, s, w) \<Rightarrow> 2 * length (timers w))")
  show "wf (measure (\<lambda>x. case x of
          Inl (opts, s, w) \<Rightarrow> 2 * length (timers w) + 1
        | Inr (opts, s, w) \<Rightarrow> 2 * length (timers w)))"
    by simp
next
  fix opts s w x21 x22 e x y
  assume "(x21, x22) = connect_try opts s w" "(x, y) = x22"
  then have "timers y = timers w"
    by (auto simp: connect_try_def Let_def
        split: url.splits if_splits list.splits fetch_outcome.splits option.splits)
  then show "(Inr (opts, x, y), Inl (opts, s, w)) \<in> measure (\<lambda>x. case x of
          Inl (opts, s, w) \<Rightarrow> 2 * length (timers w) + 1
        | Inr (opts, s, w) \<Rightarrow> 2 * length (timers w))"
    by simp
next
  fix opts s w x21 x22 u x y
  assume "(x21, x22) = reconnect_wait opts s w" "x21 = Returns u" "(x, y) = x22"
  then have "length (timers y) < length (timers w)"
    by (auto simp: reconnect_wait_def Let_def
        split: if_splits list.splits timer_outcome.splits)
  then show "(Inl (opts, x, y), Inr (opts, s, w)) \<in> measure (\<lambda>x. case x of
          Inl (opts, s, w) \<Rightarrow> 2 * length (timers w) + 1
        | Inr (opts, s, w) \<Rightarrow> 2 * length (timers w))"
    by simp
qed

text \<open>Neither call gives back a timer answer, and a \<open>reconnect\<close> that returns has used one.\<close>

lemma connect_try_timers: "connect_try opts s w = (r, s', w') \<Longrightarrow> timers w' = timers w"
  by (auto simp: connect_try_def Let_def
      split: url.splits if_splits list.splits fetch_outcome.splits option.splits)

lemma reconnect_wait_timers:
  "reconnect_wait opts s w = (r, s', w') \<Longrightarrow>
   length (timers w') \<le> length (timers w) \<and> (r = Returns u \<longrightarrow> length (timers w') < length (timers w))"
  by (auto simp: reconnect_wait_def Let_def split: if_splits list.splits timer_outcome.splits)

lemma connect_reconnect_timers:
  "length (timers (snd (snd (connect opts s w)))) \<le> length (timers w)"
  "length (timers (snd (snd (reconnect opts s w)))) \<le> length (timers w) \<and>
   (fst (reconnect opts s w) = Returns () \<longrightarrow>
      length (timers (snd (snd (reconnect opts s w)))) < length (timers w))"
proof (induction opts s w and opts s w rule: connect_reconnect.induct)
  case (1 opts s w)
  obtain r s1 w1 where t: "connect_try opts s w = (r, s1, w1)" by (cases "connect_try opts s w") auto
  have tm: "timers w1 = timers w" using t by (rule connect_try_timers)
  show ?case
  proof (cases "\<exists>e. r = Throws e \<and> instanceof_Error e \<and> retry_enabled opts \<and> shouldRetry opts s1")
    case True
    then obtain e where e: "r = Throws e" "instanceof_Error e" "retry_enabled opts \<and> shouldRetry opts s1"
      by auto
    have "length (timers (snd (snd (reconnect opts s1 w1)))) \<le> length (timers w1)"
      using 1[OF t[symmetric] e(1) refl e(2) e(3)] by simp
    then show ?thesis using t e tm by simp
  next
    case False
    then show ?thesis using t tm by (cases r) auto
  qed
next
  case (2 opts s w)
  obtain r s1 w1 where t: "reconnect_wait opts s w = (r, s1, w1)"
    by (cases "reconnect_wait opts s w") auto
  note tm = reconnect_wait_timers[OF t, of "()"]
  show ?case
  proof (cases r)
    case (Returns u)
    have "length (timers (snd (snd (connect opts s1 w1)))) \<le> length (timers w1)"
      using 2[OF t[symmetric] Returns refl] .
    then show ?thesis using t tm Returns by simp
  next
    case (Throws e)
    then show ?thesis using t tm by simp
  next
    case Pending
    then show ?thesis using t tm by simp
  qed
qed

subsection \<open>next, close and useSSEStream\<close>

text \<open>
  One activation of \<open>next\<close> ends with a result, or with \<open>return this.next()\<close> after a
  reconnection: \<open>Again\<close>. A promise returned without \<open>await\<close> is not under the \<open>try\<close>, so the
  inner call's result is the result.
\<close>

datatype step = Final "iter_result outcome" client world | Again client world

text \<open>The \<open>catch\<close> block of \<open>next\<close>; what \<open>reconnect\<close> throws here leaves \<open>next\<close>.\<close>

definition next_catch :: "options \<Rightarrow> exn \<Rightarrow> client \<Rightarrow> world \<Rightarrow> step" where
  "next_catch opts e s w =
     (if instanceof_Error e \<and> e \<noteq> AbortError then
        (if retry_enabled opts \<and> shouldRetry opts s then
           (case reconnect opts (s\<lparr>reader := False, stream := None\<rparr>) w of
              (Returns u, s', w') \<Rightarrow> Again s' w'
            | (Throws e', s', w') \<Rightarrow> Final (Throws e') s' w'
            | (Pending, s', w') \<Rightarrow> Final Pending s' w')
         else Final (Returns Done) (s\<lparr>reader := False\<rparr>) w)
      else Final (Returns Done) (s\<lparr>reader := False\<rparr>) w)"

text \<open>
  The \<open>try\<close> block of \<open>next\<close>, entered with a reader: one \<open>read\<close>. An event updates the cursor
  when its \<open>id\<close> is truthy. What \<open>reconnect\<close> throws after a clean end is caught by the
  \<open>catch\<close> block. A reader without a stream does not arise (see \<^typ>\<open>client\<close>); the read
  is then left pending.
\<close>

definition next_try :: "options \<Rightarrow> client \<Rightarrow> world \<Rightarrow> step" where
  "next_try opts s w =
     (case stream s of
        None \<Rightarrow> Final Pending s w
      | Some st \<Rightarrow>
          (case queued st of
             m # ms \<Rightarrow>
               Final (Returns (Yield m))
                 (s\<lparr>stream := Some (st\<lparr>queued := ms\<rparr>),
                    currentLastEventId :=
                      (if truthy (id' m) then id' m else currentLastEventId s)\<rparr>)
                 (w\<lparr>log := log w @ [Emit m]\<rparr>)
           | [] \<Rightarrow>
               (case ending st of
                  Hangs \<Rightarrow> Final Pending s w
                | Errored e \<Rightarrow> next_catch opts e s (w\<lparr>aborted := aborted w \<or> e = AbortError\<rparr>)
                | Closed \<Rightarrow>
                    (let s1 = s\<lparr>reader := False\<rparr>
                     in if retry_enabled opts \<and> shouldRetry opts s1 then
                          (case reconnect opts (s1\<lparr>stream := None\<rparr>) w of
                             (Returns u, s', w') \<Rightarrow> Again s' w'
                           | (Throws e, s', w') \<Rightarrow> next_catch opts e s' w'
                           | (Pending, s', w') \<Rightarrow> Final Pending s' w')
                        else Final (Returns Done) s1 w))))"

text \<open>
  \<open>next\<close> up to its \<open>try\<close>: without a reader it connects when there is no stream, which is
  not under the \<open>try\<close>, and takes a reader.
\<close>

definition next_step :: "options \<Rightarrow> client \<Rightarrow> world \<Rightarrow> step" where
  "next_step opts s w =
     (if \<not> reader s then
        (case (if stream s = None then connect opts s w else (Returns (), s, w)) of
           (Returns u, s1, w1) \<Rightarrow>
             if stream s1 = None then Final (Throws ConnectFailed) s1 w1
             else next_try opts (s1\<lparr>reader := True\<rparr>) w1
         | (Throws e, s1, w1) \<Rightarrow> Final (Throws e) s1 w1
         | (Pending, s1, w1) \<Rightarrow> Final Pending s1 w1)
      else next_try opts s w)"

text \<open>An activation that ends with \<open>Again\<close> has used a timer answer, so \<open>next\<close> terminates.\<close>

lemma next_catch_Again:
  "next_catch opts e s w = Again s' w' \<Longrightarrow> length (timers w') < length (timers w)"
proof -
  assume a: "next_catch opts e s w = Again s' w'"
  let ?s = "s\<lparr>reader := False, stream := None\<rparr>"
  obtain r s1 w1 where rc: "reconnect opts ?s w = (r, s1, w1)"
    by (cases "reconnect opts ?s w") auto
  have "r = Returns () \<and> s1 = s' \<and> w1 = w'"
    using a rc by (cases r) (auto simp: next_catch_def split: if_splits)
  then show ?thesis
    using connect_reconnect_timers(2)[of opts ?s w] rc by simp
qed

lemma next_try_Again:
  "next_try opts s w = Again s' w' \<Longrightarrow> length (timers w') < length (timers w)"
proof -
  assume a: "next_try opts s w = Again s' w'"
  then obtain st where st: "stream s = Some st" "queued st = []"
    by (auto simp: next_try_def split: option.splits list.splits)
  show ?thesis
  proof (cases "ending st")
    case Hangs
    then show ?thesis using a st by (simp add: next_try_def)
  next
    case (Errored e)
    then have "next_catch opts e s (w\<lparr>aborted := aborted w \<or> e = AbortError\<rparr>) = Again s' w'"
      using a st by (simp add: next_try_def)
    then show ?thesis using next_catch_Again by fastforce
  next
    case Closed
    let ?s = "s\<lparr>reader := False, stream := None\<rparr>"
    obtain r s1 w1 where rc: "reconnect opts ?s w = (r, s1, w1)"
      by (cases "reconnect opts ?s w") auto
    note tm = connect_reconnect_timers(2)[of opts ?s w]
    from a st Closed have en: "retry_enabled opts \<and> shouldRetry opts (s\<lparr>reader := False\<rparr>)"
      by (auto simp: next_try_def Let_def split: if_splits)
    show ?thesis
    proof (cases r)
      case (Returns u)
      then have "s1 = s' \<and> w1 = w'" using a st Closed en rc by (simp add: next_try_def Let_def)
      then show ?thesis using tm rc Returns by simp
    next
      case (Throws e')
      then have "next_catch opts e' s1 w1 = Again s' w'"
        using a st Closed en rc by (simp add: next_try_def Let_def)
      then have "length (timers w') < length (timers w1)" by (rule next_catch_Again)
      then show ?thesis using tm rc by simp
    next
      case Pending
      then show ?thesis using a st Closed en rc by (simp add: next_try_def Let_def)
    qed
  qed
qed

lemma next_step_Again:
  "next_step opts s w = Again s' w' \<Longrightarrow> length (timers w') < length (timers w)"
proof -
  assume a: "next_step opts s w = Again s' w'"
  show ?thesis
  proof (cases "reader s")
    case True
    then show ?thesis using a next_try_Again by (simp add: next_step_def)
  next
    case False
    show ?thesis
    proof (cases "stream s = None")
      case s0: False
      then obtain st where "stream s = Some st" by auto
      then have "next_try opts (s\<lparr>reader := True\<rparr>) w = Again s' w'"
        using a False by (simp add: next_step_def)
      then show ?thesis by (rule next_try_Again)
    next
      case True
      obtain r s1 w1 where c: "connect opts s w = (r, s1, w1)" by (cases "connect opts s w") auto
      have tm: "length (timers w1) \<le> length (timers w)"
        using connect_reconnect_timers(1)[of opts s w] c by simp
      have "next_try opts (s1\<lparr>reader := True\<rparr>) w1 = Again s' w'"
        using a False True c by (cases r) (auto simp: next_step_def split: if_splits)
      then have "length (timers w') < length (timers w1)" by (rule next_try_Again)
      then show ?thesis using tm by simp
    qed
  qed
qed

text \<open>
  \<open>next\<close>: the activations follow one another until one ends with a result. The result
  \<open>Pending\<close> stands for a promise that never settles.
\<close>

function "next" :: "options \<Rightarrow> client \<Rightarrow> world \<Rightarrow> iter_result outcome \<times> client \<times> world" where
  "next opts s w =
     (case next_step opts s w of
        Final r s' w' \<Rightarrow> (r, s', w')
      | Again s' w' \<Rightarrow> next opts s' w')"
  by pat_completeness auto
termination
  by (relation "measure (\<lambda>(opts, s, w). length (timers w))") (auto dest: next_step_Again)

text \<open>
  \<open>close\<close>: the controller, if there is one, is aborted; the reader, if there is one, is
  cancelled; both references are cleared.
\<close>

definition close :: "options \<Rightarrow> client \<Rightarrow> world \<Rightarrow> client \<times> world" where
  "close opts s w =
     (s\<lparr>stream := None, reader := False\<rparr>,
      w\<lparr>aborted := aborted w \<or> abortController opts,
        log := log w @ (if reader s then [Cancel] else [])\<rparr>)"

text \<open>
  The consumer calls \<open>abort()\<close>, without a reason, on the controller it supplied, between two
  pulls: the signal is aborted. What this does to the body of an open connection shows in what
  the reader of its stream sees from then on, the events that the pipe still delivers and then
  an \<open>AbortError\<close>; that is part of the stream which the world gave, and \<open>abort\<close> leaves it
  as it is. During a pull the same call shows as an answer of the world: a \<open>fetch\<close> or a
  \<open>read\<close> that rejects with \<open>AbortError\<close>, or the timer answer \<open>AbortDuringWait\<close>.
\<close>

definition abort :: "options \<Rightarrow> world \<Rightarrow> world" where
  "abort opts w = w\<lparr>aborted := aborted w \<or> abortController opts\<rparr>"

text \<open>
  \<open>useSSEStream\<close> (index.ts): the checks of the URL, the defaults, the checks of the three
  numbers, and the new instance, given as the normalised options and the fields.
\<close>

datatype config_error =
    UrlRequired
  | InvalidUrl
  | NegativeInitialRetryDelay
  | MaxRetryDelayTooSmall
  | NegativeMaxRetries

definition normalizedOptions :: "options \<Rightarrow> options" where
  "normalizedOptions opts =
     opts\<lparr>withCredentials := Some (case withCredentials opts of None \<Rightarrow> False | Some b \<Rightarrow> b),
          retryStrategy := Some (case retryStrategy opts of None \<Rightarrow> True | Some b \<Rightarrow> b),
          initialRetryDelay := Some (case initialRetryDelay opts of None \<Rightarrow> 1000 | Some d \<Rightarrow> d),
          maxRetryDelay := Some (case maxRetryDelay opts of None \<Rightarrow> 30000 | Some d \<Rightarrow> d),
          maxRetries := Some (case maxRetries opts of None \<Rightarrow> Infinity | Some m \<Rightarrow> m)\<rparr>"

definition useSSEStream :: "options \<Rightarrow> config_error + options \<times> client" where
  "useSSEStream opts =
     (case url opts of
        NoUrl \<Rightarrow> Inl UrlRequired
      | BadUrl \<Rightarrow> Inl InvalidUrl
      | Url protocol \<Rightarrow>
          if protocol \<notin> set [''http:'', ''https:''] then Inl InvalidUrl
          else (let n = normalizedOptions opts
                in if the (initialRetryDelay n) < 0 then Inl NegativeInitialRetryDelay
                   else if the (maxRetryDelay n) < the (initialRetryDelay n)
                        then Inl MaxRetryDelayTooSmall
                   else if \<not> less_jsnum (-1) (the (maxRetries n)) then Inl NegativeMaxRetries
                   else Inr (n, constructor n)))"

text \<open>
  A session: what the consumer does with the iterator, one call after the other. The results
  of the pulls are collected.
\<close>

datatype action = Pull | Close | Abort

fun run ::
  "options \<Rightarrow> action list \<Rightarrow> client \<Rightarrow> world
   \<Rightarrow> iter_result outcome list \<times> client \<times> world" where
  "run opts [] s w = ([], s, w)"
| "run opts (Pull # as) s w =
     (case next opts s w of
        (r, s1, w1) \<Rightarrow> (case run opts as s1 w1 of (rs, s2, w2) \<Rightarrow> (r # rs, s2, w2)))"
| "run opts (Close # as) s w = (case close opts s w of (s1, w1) \<Rightarrow> run opts as s1 w1)"
| "run opts (Abort # as) s w = run opts as s (abort opts w)"

section \<open>The words of the specification\<close>

text \<open>
  The frames in the words of the specification: the lines of a frame, and the values of the
  lines of a field, that is, of the lines that start with the name of the field and a colon;
  the value is what follows the colon, without one leading space.
\<close>

definition values_of :: "string \<Rightarrow> string list \<Rightarrow> string list" where
  "values_of name ls =
     map (\<lambda>l. strip_space (drop (length name + 1) l))
       (filter (\<lambda>l. take (length name + 1) l = name @ [colon]) ls)"

definition field_values :: "string \<Rightarrow> string \<Rightarrow> string list" where
  "field_values name frame = values_of name (js_split [NL] frame)"

definition data_values :: "string \<Rightarrow> string list" where
  "data_values frame = field_values ''data'' frame"

text \<open>
  The values of the \<open>retry\<close> lines that \<open>parseInt\<close> accepts, and the values of the \<open>id\<close>
  lines without a NUL character. \<open>last_option\<close> is the last element of a list, if any.
\<close>

definition retry_values :: "string \<Rightarrow> int list" where
  "retry_values frame = List.map_filter js_parseInt (field_values ''retry'' frame)"

definition id_values :: "string \<Rightarrow> string list" where
  "id_values frame = filter (\<lambda>v. CHR 0x00 \<notin> set v) (field_values ''id'' frame)"

definition last_option :: "'a list \<Rightarrow> 'a option" where
  "last_option xs = (if xs = [] then None else Some (last xs))"

text \<open>
  A line that the parser passes over: empty, a comment, or without a colon. A value with an
  integer at its start: after leading white space and one optional sign comes a decimal digit.
\<close>

definition ignored_line :: "string \<Rightarrow> bool" where
  "ignored_line l \<longleftrightarrow> l = [] \<or> hd l = colon \<or> colon \<notin> set l"

definition has_int_prefix :: "string \<Rightarrow> bool" where
  "has_int_prefix v =
     (let s = dropWhile js_whitespace v;
          t = (if s \<noteq> [] \<and> (hd s = CHR ''+'' \<or> hd s = CHR ''-'') then tl s else s)
      in t \<noteq> [] \<and> is_digit (hd t))"












text \<open>
  Examples: the options that \<open>useSSEStream\<close> makes from a URL alone, those options before
  the defaults are filled in, an event with the default type, and a world in which every
  connection attempt fails.
\<close>

definition base_options :: options where
  "base_options =
     \<lparr>url = Url ''https:'', withCredentials = Some False, abortController = False,
      retryStrategy = Some True, initialRetryDelay = Some 1000, maxRetryDelay = Some 30000,
      maxRetries = Some Infinity, headers = Map.empty, lastEventId = None\<rparr>"

definition url_only_options :: options where
  "url_only_options =
     \<lparr>url = Url ''https:'', withCredentials = None, abortController = False,
      retryStrategy = None, initialRetryDelay = None, maxRetryDelay = None,
      maxRetries = None, headers = Map.empty, lastEventId = None\<rparr>"

definition message :: "string \<Rightarrow> string option \<Rightarrow> sse_message" where
  "message d i = \<lparr>event = ''message'', data = d, id' = i, retry = None\<rparr>"


declare connect.simps [simp del] reconnect.simps [simp del] next.simps [simp del]

section \<open>The split stream does not depend on the chunking\<close>

lemma js_split_not_Nil: "sep \<noteq> [] \<Longrightarrow> js_split sep s \<noteq> []"
  by (induction sep s rule: js_split.induct) (auto simp: cons_head_def split: list.splits)

lemma js_split_short: "length s < length sep \<Longrightarrow> js_split sep s = [s]"
proof (induction s)
  case Nil
  then show ?case by auto
next
  case (Cons c cs)
  then have "take (length sep) (c # cs) \<noteq> sep"
    by (metis length_take min.strict_order_iff min_less_iff_conj nat_neq_iff)
  with Cons show ?case by (auto simp: cons_head_def)
qed

lemma js_split_single: "sep \<noteq> [] \<Longrightarrow> js_split sep s = [a] \<Longrightarrow> a = s"
proof (induction sep s arbitrary: a rule: js_split.induct)
  case (1 sep)
  then show ?case by auto
next
  case (2 sep c cs)
  show ?case
  proof (cases "take (length sep) (c # cs) = sep")
    case True
    with 2 show ?thesis by (auto simp: js_split_not_Nil)
  next
    case False
    with 2(3,4,5) obtain b where b: "js_split sep cs = [b]" "a = c # b"
      by (cases "js_split sep cs") (auto simp: cons_head_def js_split_not_Nil)
    with 2(3)[OF 2(4) False] 2(4) show ?thesis by auto
  qed
qed

lemma take_append_eq: "take (length s) p = s \<Longrightarrow> take (length s) (p @ q) = s"
proof -
  assume a: "take (length s) p = s"
  then have "length (take (length s) p) = length s" by simp
  then have "length s \<le> length p" by simp
  then show ?thesis using a by simp
qed

lemma drop_append_eq: "take (length s) p = s \<Longrightarrow> drop (length s) (p @ q) = drop (length s) p @ q"
proof -
  assume a: "take (length s) p = s"
  then have "length (take (length s) p) = length s" by simp
  then have "length s \<le> length p" by simp
  then show ?thesis by simp
qed

lemma take_append_long: "length s \<le> length p \<Longrightarrow> take (length s) (p @ q) = take (length s) p"
  by simp

text \<open>
  Splitting a text that is cut in two: the parts of the first piece but the last, then the
  parts of what the last part and the second piece make together.
\<close>

lemma js_split_append:
  "sep \<noteq> [] \<Longrightarrow>
   js_split sep (p @ q) = butlast (js_split sep p) @ js_split sep (last (js_split sep p) @ q)"
proof (induction sep p rule: js_split.induct)
  case (1 sep)
  then show ?case by simp
next
  case (2 sep c cs)
  let ?p = "c # cs"
  show ?case
  proof (cases "take (length sep) ?p = sep")
    case True
    have t: "take (length sep) (?p @ q) = sep" using True by (rule take_append_eq)
    have d: "drop (length sep) (?p @ q) = drop (length sep) ?p @ q"
      using True by (rule drop_append_eq)
    have ne: "js_split sep (drop (length sep) ?p) \<noteq> []" using 2(4) by (rule js_split_not_Nil)
    have "js_split sep ((c # cs) @ q) = js_split sep (c # (cs @ q))" by simp
    also have "\<dots> = [] # js_split sep (drop (length sep) (c # (cs @ q)))"
      using t 2(4) by (simp del: drop_Cons')
    finally have "js_split sep (?p @ q) = [] # js_split sep (drop (length sep) ?p @ q)"
      using d by simp
    moreover have "js_split sep ?p = [] # js_split sep (drop (length sep) ?p)"
      using True 2(4) by simp
    ultimately show ?thesis using 2(2)[OF 2(4) True 2(4)] ne by simp
  next
    case False
    show ?thesis
    proof (cases "length ?p < length sep")
      case True
      then show ?thesis using js_split_short[OF True] by simp
    next
      case long: False
      then have "length sep \<le> length ?p" by simp
      then have "take (length sep) (?p @ q) = take (length sep) ?p" by (rule take_append_long)
      then have nt: "take (length sep) (c # (cs @ q)) \<noteq> sep" using False by simp
      have ne: "js_split sep cs \<noteq> []" using 2(4) by (rule js_split_not_Nil)
      have ne2: "js_split sep (cs @ q) \<noteq> []" using 2(4) by (rule js_split_not_Nil)
      have L: "js_split sep (?p @ q) = cons_head c (js_split sep (cs @ q))"
        using nt 2(4) by (simp del: take_Cons')
      have P: "js_split sep ?p = cons_head c (js_split sep cs)"
        using False 2(4) by simp
      have IH: "js_split sep (cs @ q) =
          butlast (js_split sep cs) @ js_split sep (last (js_split sep cs) @ q)"
        using 2(3)[OF 2(4) False 2(4)] .
      obtain a as where aas: "js_split sep cs = a # as" using ne by (cases "js_split sep cs") auto
      show ?thesis
      proof (cases as)
        case Nil
        then have "a = cs" using js_split_single[OF 2(4)] aas by simp
        then show ?thesis using P aas Nil by (simp add: cons_head_def)
      next
        case (Cons b bs)
        then show ?thesis using L P IH aas by (simp add: cons_head_def)
      qed
    qed
  qed
qed

lemma js_split_last_fixed:
  assumes "sep \<noteq> []"
  shows "js_split sep (last (js_split sep s)) = [last (js_split sep s)]"
proof -
  have ne: "js_split sep s \<noteq> []" using assms by (rule js_split_not_Nil)
  have "js_split sep (s @ []) = butlast (js_split sep s) @ js_split sep (last (js_split sep s) @ [])"
    using assms by (rule js_split_append)
  then have "butlast (js_split sep s) @ [last (js_split sep s)]
      = butlast (js_split sep s) @ js_split sep (last (js_split sep s))"
    using ne by simp
  then show ?thesis by simp
qed

lemma split_run_concat:
  "js_split [NL, NL] buffer = [buffer] \<Longrightarrow>
   split_run valid buffer chunks = split_run valid buffer [concat chunks]"
proof (induction chunks arbitrary: buffer)
  case Nil
  then show ?case by (simp add: split_transform_def)
next
  case (Cons c cs)
  let ?P = "js_split [NL, NL] (buffer @ c)"
  let ?b = "last ?P"
  let ?Q = "js_split [NL, NL] (?b @ concat cs)"
  have fx: "js_split [NL, NL] ?b = [?b]" by (rule js_split_last_fixed) simp
  have Qne: "?Q \<noteq> []" by (rule js_split_not_Nil) simp
  have W: "js_split [NL, NL] (buffer @ concat (c # cs)) = butlast ?P @ ?Q"
    using js_split_append[of "[NL, NL]" "buffer @ c" "concat cs"] by simp
  have "split_run valid buffer (c # cs) = filter valid (butlast ?P) @ split_run valid ?b cs"
    by (simp add: split_transform_def Let_def)
  also have "split_run valid ?b cs = split_run valid ?b [concat cs]"
    using Cons.IH[OF fx] .
  also have "\<dots> = filter valid (butlast ?Q) @ split_flush valid (last ?Q)"
    by (simp add: split_transform_def Let_def)
  finally show ?case
    using W Qne by (simp add: split_transform_def Let_def butlast_append)
qed

text \<open>
  An example with the \<open>isValidString\<close> of the specification: the document
  \<open>data: a\ndata: b\n\n: ping\n\n\n\ndata: c\<close>, cut inside a field name and inside the
  delimiter, gives two events; the comment frame and the empty frame give none, and
  the last frame is flushed at the end.
\<close>

lemma pipeline_example:
  "pipeline isValidString
     [''data: a\<newline>da'', ''ta: b\<newline>'', ''\<newline>: ping\<newline>\<newline>\<newline>'', ''\<newline>data: c''] =
     [message ''a\<newline>b'' None, message ''c'' None]"
  by code_simp

text \<open>
  C1. Whatever the document and however it is cut into chunks (the chunks may be empty and a cut
  may fall inside the \<open>\n\n\<close> delimiter or inside a field name), writing the chunks one
  after the other to the split stream piped into the parse stream gives the same events, in the
  same order, as writing the whole document as one chunk. This holds for every predicate in the
  place of \<open>isValidString\<close>.
\<close>

theorem chunking_invariance:
  "pipeline valid chunks = pipeline valid [concat chunks]"
  unfolding pipeline_def createSplitStream_def
  using split_run_concat[of "[]" valid chunks] by simp

section \<open>The parse stream against the words of the specification\<close>

lemma js_indexOf_less: "js_indexOf c l = Some i \<Longrightarrow> i < length l"
  by (induction l arbitrary: i) (auto split: if_splits)

lemma js_indexOf_take:
  "c \<notin> set name \<Longrightarrow>
   (js_indexOf c l = Some (length name) \<and> take (length name) l = name)
     \<longleftrightarrow> take (length name + 1) l = name @ [c]"
proof (induction l arbitrary: name)
  case Nil
  then show ?case by auto
next
  case (Cons x xs)
  show ?case
  proof (cases name)
    case Nil
    then show ?thesis by auto
  next
    case (Cons n ns)
    then have "c \<notin> set ns" "n \<noteq> c" using Cons.prems by auto
    then show ?thesis using Cons.IH[of ns] Cons by auto
  qed
qed

lemma parse_line_field:
  assumes "name \<noteq> []" "colon \<notin> set name" "take (length name + 1) l = name @ [colon]"
  shows "parse_line fs l = set_field fs name (strip_space (drop (length name + 1) l))"
proof -
  have i: "js_indexOf colon l = Some (length name)" "take (length name) l = name"
    using js_indexOf_take[OF assms(2), of l] assms(3) by auto
  have "l \<noteq> []" using assms(3) by auto
  moreover have "hd l \<noteq> colon"
    using i(2) assms(1,2) \<open>l \<noteq> []\<close> by (cases l; cases name) auto
  ultimately show ?thesis using i by (simp add: parse_line_def)
qed

lemma parse_line_other:
  assumes "colon \<notin> set name" "take (length name + 1) l \<noteq> name @ [colon]"
  shows "parse_line fs l = fs \<or> (\<exists>f v. f \<noteq> name \<and> parse_line fs l = set_field fs f v)"
proof (cases "l = [] \<or> hd l = colon \<or> js_indexOf colon l = None")
  case True
  then show ?thesis by (auto simp: parse_line_def)
next
  case False
  then obtain i where i: "js_indexOf colon l = Some i" by auto
  have "i < length l" using i by (rule js_indexOf_less)
  then have "length (take i l) = i" by simp
  then have "take i l \<noteq> name"
    using js_indexOf_take[OF assms(1), of l] assms(2) i by auto
  then show ?thesis using False i by (auto simp: parse_line_def)
qed

lemma values_of_single:
  "values_of name [l] =
     (if take (length name + 1) l = name @ [colon]
      then [strip_space (drop (length name + 1) l)] else [])"
  by (simp add: values_of_def)

lemma values_of_append: "values_of name (xs @ ys) = values_of name xs @ values_of name ys"
  by (simp add: values_of_def)

text \<open>
What one line does to each of the four variables.
\<close>

lemma parse_line_data: "f_data (parse_line fs l) = f_data fs @ values_of ''data'' [l]"
proof (cases "take (length ''data'' + 1) l = ''data'' @ [colon]")
  case True
  have "parse_line fs l = set_field fs ''data'' (strip_space (drop (length ''data'' + 1) l))"
    by (rule parse_line_field[OF _ _ True]) simp_all
  then show ?thesis using True by (simp add: values_of_single set_field_def)
next
  case False
  have "parse_line fs l = fs \<or> (\<exists>f v. f \<noteq> ''data'' \<and> parse_line fs l = set_field fs f v)"
    by (rule parse_line_other[OF _ False]) simp
  then show ?thesis using False
    by (auto simp: values_of_single set_field_def split: option.splits)
qed

lemma parse_line_retry:
  "f_retry (parse_line fs l) =
     (case last_option (List.map_filter js_parseInt (values_of ''retry'' [l])) of
        None \<Rightarrow> f_retry fs | Some n \<Rightarrow> Some n)"
proof (cases "take (length ''retry'' + 1) l = ''retry'' @ [colon]")
  case True
  have "parse_line fs l = set_field fs ''retry'' (strip_space (drop (length ''retry'' + 1) l))"
    by (rule parse_line_field[OF _ _ True]) simp_all
  then show ?thesis using True
    by (simp add: values_of_single set_field_def map_filter_def last_option_def
        split: option.splits)
next
  case False
  have "parse_line fs l = fs \<or> (\<exists>f v. f \<noteq> ''retry'' \<and> parse_line fs l = set_field fs f v)"
    by (rule parse_line_other[OF _ False]) simp
  then show ?thesis using False
    by (auto simp: values_of_single set_field_def map_filter_def last_option_def
        split: option.splits)
qed

lemma parse_line_id:
  "f_id (parse_line fs l) =
     (case last_option (filter (\<lambda>v. CHR 0x00 \<notin> set v) (values_of ''id'' [l])) of
        None \<Rightarrow> f_id fs | Some v \<Rightarrow> Some v)"
proof (cases "take (length ''id'' + 1) l = ''id'' @ [colon]")
  case True
  have "parse_line fs l = set_field fs ''id'' (strip_space (drop (length ''id'' + 1) l))"
    by (rule parse_line_field[OF _ _ True]) simp_all
  then show ?thesis using True
    by (simp add: values_of_single set_field_def last_option_def)
next
  case False
  have "parse_line fs l = fs \<or> (\<exists>f v. f \<noteq> ''id'' \<and> parse_line fs l = set_field fs f v)"
    by (rule parse_line_other[OF _ False]) simp
  then show ?thesis using False
    by (auto simp: values_of_single set_field_def last_option_def split: option.splits)
qed

lemma parse_line_event:
  "f_event (parse_line fs l) =
     (case last_option (values_of ''event'' [l]) of None \<Rightarrow> f_event fs | Some v \<Rightarrow> v)"
proof (cases "take (length ''event'' + 1) l = ''event'' @ [colon]")
  case True
  have "parse_line fs l = set_field fs ''event'' (strip_space (drop (length ''event'' + 1) l))"
    by (rule parse_line_field[OF _ _ True]) simp_all
  then show ?thesis using True
    by (simp add: values_of_single set_field_def last_option_def)
next
  case False
  have "parse_line fs l = fs \<or> (\<exists>f v. f \<noteq> ''event'' \<and> parse_line fs l = set_field fs f v)"
    by (rule parse_line_other[OF _ False]) simp
  then show ?thesis using False
    by (auto simp: values_of_single set_field_def last_option_def split: option.splits)
qed

text \<open>
The loop over the lines, and the event that results.
\<close>

lemma foldl_parse_line_data:
  "f_data (foldl parse_line fs ls) = f_data fs @ values_of ''data'' ls"
proof (induction ls rule: rev_induct)
  case Nil
  then show ?case by (simp add: values_of_def)
next
  case (snoc l ls)
  then show ?case by (simp add: parse_line_data values_of_append[of _ ls "[l]"])
qed

lemma foldl_last_wins:
  assumes step: "\<And>fs l. g (parse_line fs l) =
                   (case last_option (h [l]) of None \<Rightarrow> g fs | Some v \<Rightarrow> Some v)"
    and app: "\<And>xs ys. h (xs @ ys) = h xs @ h ys"
    and nil: "h [] = []"
  shows "g (foldl parse_line fs ls) =
           (case last_option (h ls) of None \<Rightarrow> g fs | Some v \<Rightarrow> Some v)"
proof (induction ls rule: rev_induct)
  case Nil
  then show ?case by (simp add: nil last_option_def)
next
  case (snoc l ls)
  show ?case
  proof (cases "h [l] = []")
    case True
    then show ?thesis using snoc by (simp add: step app last_option_def)
  next
    case False
    then show ?thesis by (simp add: step app last_option_def)
  qed
qed

lemma foldl_parse_line_retry:
  "f_retry (foldl parse_line fs ls) =
     (case last_option (List.map_filter js_parseInt (values_of ''retry'' ls)) of
        None \<Rightarrow> f_retry fs | Some n \<Rightarrow> Some n)"
  by (rule foldl_last_wins) (simp_all add: parse_line_retry values_of_append map_filter_def values_of_def)

lemma foldl_parse_line_id:
  "f_id (foldl parse_line fs ls) =
     (case last_option (filter (\<lambda>v. CHR 0x00 \<notin> set v) (values_of ''id'' ls)) of
        None \<Rightarrow> f_id fs | Some v \<Rightarrow> Some v)"
  by (rule foldl_last_wins) (simp_all add: parse_line_id values_of_append values_of_def)

lemma foldl_parse_line_event:
  "Some (f_event (foldl parse_line fs ls)) =
     (case last_option (values_of ''event'' ls) of None \<Rightarrow> Some (f_event fs) | Some v \<Rightarrow> Some v)"
  by (rule foldl_last_wins[where g = "\<lambda>fs. Some (f_event fs)"])
     (simp_all add: parse_line_event values_of_append values_of_def split: option.splits)

lemma parse_frame_fields:
  "parse_frame frame =
     (if data_values frame = [] then None
      else Some \<lparr>event = (case last_option (field_values ''event'' frame) of
                            None \<Rightarrow> ''message'' | Some v \<Rightarrow> v),
                 data = js_join [NL] (data_values frame),
                 id' = last_option (id_values frame),
                 retry = last_option (retry_values frame)\<rparr>)"
proof -
  let ?fs = "foldl parse_line init_fields (js_split [NL] frame)"
  have d: "f_data ?fs = data_values frame"
    by (simp add: foldl_parse_line_data data_values_def field_values_def init_fields_def)
  have r: "f_retry ?fs = last_option (retry_values frame)"
    by (simp add: foldl_parse_line_retry retry_values_def field_values_def init_fields_def
        split: option.splits)
  have i: "f_id ?fs = last_option (id_values frame)"
    by (simp add: foldl_parse_line_id id_values_def field_values_def init_fields_def
        split: option.splits)
  have "Some (f_event ?fs) =
      (case last_option (field_values ''event'' frame) of
         None \<Rightarrow> Some ''message'' | Some v \<Rightarrow> Some v)"
    by (simp add: foldl_parse_line_event field_values_def init_fields_def split: option.splits)
  then have e: "f_event ?fs =
      (case last_option (field_values ''event'' frame) of None \<Rightarrow> ''message'' | Some v \<Rightarrow> v)"
    by (simp split: option.splits)
  show ?thesis
    unfolding parse_frame_def build_message_def by (simp only: d r i e length_greater_0_conv) simp
qed

lemma ignored_lines_no_values:
  assumes "name \<noteq> []" "colon \<notin> set name" "\<forall>l \<in> set ls. ignored_line l"
  shows "values_of name ls = []"
proof -
  have "take (length name + 1) l \<noteq> name @ [colon]" if "ignored_line l" for l
  proof
    assume t: "take (length name + 1) l = name @ [colon]"
    then have "l \<noteq> []" by auto
    moreover have "hd l = hd name" using t assms(1) by (cases l; cases name) auto
    then have "hd l \<noteq> colon" using assms(1,2) by (cases name) auto
    moreover have "colon \<in> set (take (length name + 1) l)" using t by simp
    then have "colon \<in> set l" by (rule in_set_takeD)
    ultimately show False using that by (simp add: ignored_line_def)
  qed
  then show ?thesis using assms(3) by (auto simp: values_of_def filter_empty_conv)
qed

lemma js_join_NL: "js_join [NL] (v # vs) = v @ concat (map ((#) NL) vs)"
  by (induction vs arbitrary: v) auto

lemma js_parseInt_None: "js_parseInt v = None \<longleftrightarrow> \<not> has_int_prefix v"
  by (auto simp: js_parseInt_def has_int_prefix_def Let_def takeWhile_eq_Nil_iff)

text \<open>
  C8. When a frame has data lines, an event is produced, and its \<open>data\<close> is the values of
  those lines joined with a line feed in the order in which the lines stand in the frame: the
  first value, then every further value preceded by a line feed. The frame
  \<open>data: a\ndata: b\<close> gives the data \<open>a\nb\<close>.
\<close>

theorem data_lines_joined:
  assumes "data_values frame = v # vs"
  shows "\<exists>m. parse_frame frame = Some m \<and> data m = v @ concat (map ((#) NL) vs)"
  using assms by (simp add: parse_frame_fields js_join_NL)

theorem data_lines_joined_witness:
  "data_values ''data: a\<newline>data: b'' = [''a'', ''b''] \<and>
   (\<exists>m. parse_frame ''data: a\<newline>data: b'' = Some m \<and> data m = ''a\<newline>b'')"
proof -
  have d: "data_values ''data: a\<newline>data: b'' = [''a'', ''b'']"
    by (simp add: data_values_def field_values_def values_of_def strip_space_def cons_head_def)
  show ?thesis using d data_lines_joined[OF d] by simp
qed

text \<open>
  C9. A frame without a data line gives no event; so does, in particular, a frame all of
  whose lines are empty, start with a colon or have no colon. Such a frame leaves no trace in
  the output of the parse stream: the events of the frames before it are followed by the
  events of the frames after it.
\<close>

theorem no_data_no_event:
  assumes "data_values frame = [] \<or> list_all ignored_line (js_split [NL] frame)"
  shows "parse_frame frame = None \<and>
         createParseStream (before @ frame # after) =
           createParseStream before @ createParseStream after"
proof -
  have "data_values frame = []"
    using assms ignored_lines_no_values[of "''data''" "js_split [NL] frame"]
    by (auto simp: data_values_def field_values_def list_all_iff)
  then have "parse_frame frame = None" by (simp add: parse_frame_fields)
  then show ?thesis by (simp add: createParseStream_def parse_transform_def)
qed

theorem no_data_no_event_witness:
  "list_all ignored_line (js_split [NL] '': keepalive\<newline>\<newline>no colon\<newline>:data: x'') \<and>
   parse_frame '': keepalive\<newline>\<newline>no colon\<newline>:data: x'' = None \<and>
   createParseStream [''data: a'', '': keepalive\<newline>\<newline>no colon\<newline>:data: x'', ''data: b''] =
     createParseStream [''data: a''] @ createParseStream [''data: b'']"
proof -
  have h: "list_all ignored_line (js_split [NL] '': keepalive\<newline>\<newline>no colon\<newline>:data: x'')"
    by (simp add: ignored_line_def cons_head_def)
  show ?thesis
    using h no_data_no_event[of "'': keepalive\<newline>\<newline>no colon\<newline>:data: x''" "[''data: a'']" "[''data: b'']"]
    by simp
qed

text \<open>
  C6 does not hold as it is stated: a negative \<open>retry\<close> value is not ignored. The frame
  \<open>data: x\nretry: -5\<close> gives an event whose \<open>retry\<close> is \<open>-5\<close>.
\<close>

theorem retry_negative_kept:
  "parse_frame ''data: x\<newline>retry: -5'' =
     Some \<lparr>event = ''message'', data = ''x'', id' = None, retry = Some (- 5)\<rparr>"
  by code_simp

text \<open>
  C6, amended. The \<open>retry\<close> field of the produced event is what \<open>parseInt\<close> makes of
  the last \<open>retry\<close> line whose value it accepts, and it accepts every value that has an
  integer at its start, negative or followed by other text as it may be. A \<open>retry\<close> line
  that \<open>parseInt\<close> rejects changes nothing and does not stop the parsing; the field is unset
  exactly when no \<open>retry\<close> line is accepted.
\<close>

theorem retry_last_accepted:
  assumes "data_values frame \<noteq> []"
  shows "\<exists>m. parse_frame frame = Some m \<and>
             retry m = last_option (List.map_filter js_parseInt (field_values ''retry'' frame)) \<and>
             (retry m = None \<longleftrightarrow> (\<forall>v \<in> set (field_values ''retry'' frame). \<not> has_int_prefix v))"
proof -
  have "List.map_filter js_parseInt vs = [] \<longleftrightarrow> (\<forall>v \<in> set vs. \<not> has_int_prefix v)" for vs
    by (induction vs) (auto simp: map_filter_def js_parseInt_None[symmetric])
  then show ?thesis using assms
    by (simp add: parse_frame_fields retry_values_def last_option_def)
qed

theorem retry_last_accepted_witness:
  "data_values ''retry: 5\<newline>data: x\<newline>retry: abc\<newline>retry: 7ms\<newline>retry:'' \<noteq> [] \<and>
   (\<exists>m. parse_frame ''retry: 5\<newline>data: x\<newline>retry: abc\<newline>retry: 7ms\<newline>retry:'' = Some m \<and> retry m = Some 7)"
proof -
  have d: "data_values ''retry: 5\<newline>data: x\<newline>retry: abc\<newline>retry: 7ms\<newline>retry:'' \<noteq> []"
    by (simp add: data_values_def field_values_def values_of_def strip_space_def cons_head_def)
  have r: "last_option (List.map_filter js_parseInt
             (field_values ''retry'' ''retry: 5\<newline>data: x\<newline>retry: abc\<newline>retry: 7ms\<newline>retry:'')) = Some 7"
    by code_simp
  show ?thesis using d retry_last_accepted[OF d] r by auto
qed

section \<open>The iterator: failures, cancellation and close\<close>













lemma next_yield:
  assumes "stream s = Some st" "queued st = m # ms"
  shows "next opts s w =
           (Returns (Yield m),
            s\<lparr>reader := True, stream := Some (st\<lparr>queued := ms\<rparr>),
              currentLastEventId := (if truthy (id' m) then id' m else currentLastEventId s)\<rparr>,
            w\<lparr>log := log w @ [Emit m]\<rparr>)"
proof (cases "reader s")
  case True
  then have "s\<lparr>reader := True\<rparr> = s" by simp
  then show ?thesis using assms True
    by (simp add: next.simps next_step_def next_try_def)
next
  case False
  then show ?thesis using assms by (auto simp: next.simps next_step_def next_try_def)
qed








text \<open>
With the signal aborted and no stream, a pull rejects and touches nothing.
\<close>

lemma next_signal_aborted:
  assumes "signal_aborted opts w" "stream s = None" "\<not> reader s" "url opts = Url p"
  shows "\<exists>e s'. next opts s w = (Throws e, s', w) \<and> (e = AbortError \<or> e = TypeError) \<and>
           (sendable (currentLastEventId s) \<longrightarrow> e = AbortError) \<and>
           stream s' = None \<and> \<not> reader s' \<and> currentLastEventId s' = currentLastEventId s"
  using assms
  by (auto simp: next.simps next_step_def connect.simps reconnect.simps connect_try_def
      reconnect_wait_def Let_def instanceof_Error_def)

lemma run_signal_aborted:
  assumes "signal_aborted opts w" "url opts = Url p"
  shows "stream s = None \<Longrightarrow> \<not> reader s \<Longrightarrow>
         \<exists>rs s'. run opts (replicate n Pull) s w = (rs, s', w) \<and> length rs = n \<and>
           list_all (\<lambda>r. r = Throws AbortError \<or> r = Throws TypeError) rs \<and>
           (sendable (currentLastEventId s) \<longrightarrow> rs = replicate n (Throws AbortError))"
proof (induction n arbitrary: s)
  case 0
  then show ?case by simp
next
  case (Suc n)
  obtain e s1 where s1: "next opts s w = (Throws e, s1, w)" "e = AbortError \<or> e = TypeError"
      "sendable (currentLastEventId s) \<longrightarrow> e = AbortError"
      "stream s1 = None" "\<not> reader s1" "currentLastEventId s1 = currentLastEventId s"
    using next_signal_aborted[OF assms(1) Suc.prems assms(2)] by auto
  obtain rs s2 where r: "run opts (replicate n Pull) s1 w = (rs, s2, w)" "length rs = n"
      "list_all (\<lambda>r. r = Throws AbortError \<or> r = Throws TypeError) rs"
      "sendable (currentLastEventId s1) \<longrightarrow> rs = replicate n (Throws AbortError)"
    using Suc.IH[OF s1(4,5)] by auto
  show ?case using s1 r by auto
qed




text \<open>
  C7 does not hold as it is stated: \<open>useSSEStream\<close> creates no controller when none is
  supplied, \<open>close\<close> then has no signal to trigger, and the pull after \<open>close\<close> sends a new
  request and yields the first event of the new connection.
\<close>

theorem close_without_controller_reconnects:
  "useSSEStream url_only_options = Inr (base_options, constructor base_options) \<and>
   abortController base_options = False \<and>
   run base_options [Pull, Close, Pull] (constructor base_options)
       \<lparr>fetches = [Response 200 (Some \<lparr>queued = [message ''a'' None, message ''b'' None], ending = Hangs\<rparr>),
                   Response 200 (Some \<lparr>queued = [message ''c'' None], ending = Hangs\<rparr>)],
        timers = [], aborted = False, log = []\<rparr> =
     ([Returns (Yield (message ''a'' None)), Returns (Yield (message ''c'' None))],
      \<lparr>retryCount = 0, currentLastEventId = None,
       stream = Some \<lparr>queued = [], ending = Hangs\<rparr>, reader = True\<rparr>,
      \<lparr>fetches = [], timers = [], aborted = False,
       log = [Request None, Emit (message ''a'' None), Cancel,
              Request None, Emit (message ''c'' None)]\<rparr>)"
  by (simp add: useSSEStream_def normalizedOptions_def url_only_options_def base_options_def
      constructor_def next.simps connect.simps next_step_def next_try_def close_def
      connect_try_def signal_aborted_def response_ok_def request_headers_def truthy_def
      sendable_def message_def)

text \<open>
  C7, amended. \<open>useSSEStream\<close> hands the \<open>abortController\<close> option on as it is given and
  creates none. \<open>close\<close> clears the stream and the reader, cancels the reader if one is held,
  leaves the cursor alone, and triggers the signal of the controller if one was supplied.
  When one was supplied, the pulls after \<open>close\<close> open no connection: each of them rejects
  and leaves the world as \<open>close\<close> left it; the error is \<open>AbortError\<close> when the cursor can
  be sent as a header value, and \<open>AbortError\<close> or \<open>TypeError\<close> otherwise.
\<close>

theorem close_clears_and_aborts:
  "(useSSEStream raw = Inr (opts', s0) \<longrightarrow>
      abortController opts' = abortController raw \<and> s0 = constructor opts') \<and>
   (stream (fst (close opts s w)) = None \<and> \<not> reader (fst (close opts s w)) \<and>
    aborted (snd (close opts s w)) = (aborted w \<or> abortController opts) \<and>
    log (snd (close opts s w)) = log w @ (if reader s then [Cancel] else []) \<and>
    currentLastEventId (fst (close opts s w)) = currentLastEventId s) \<and>
   (abortController opts \<and> url opts = Url p \<longrightarrow>
      (\<forall>n. \<exists>rs s'. run opts (replicate n Pull) (fst (close opts s w)) (snd (close opts s w)) =
                     (rs, s', snd (close opts s w)) \<and>
                   length rs = n \<and>
                   list_all (\<lambda>r. r = Throws AbortError \<or> r = Throws TypeError) rs \<and>
                   (sendable (currentLastEventId s) \<longrightarrow> rs = replicate n (Throws AbortError))))"
proof (intro conjI impI allI)
  assume "useSSEStream raw = Inr (opts', s0)"
  then have "opts' = normalizedOptions raw \<and> s0 = constructor opts'"
    by (auto simp: useSSEStream_def Let_def split: url.splits if_splits)
  then show "abortController opts' = abortController raw" "s0 = constructor opts'"
    by (simp_all add: normalizedOptions_def)
next
  fix n
  assume a: "abortController opts \<and> url opts = Url p"
  then have "signal_aborted opts (snd (close opts s w))"
    by (simp add: close_def signal_aborted_def)
  then show "\<exists>rs s'. run opts (replicate n Pull) (fst (close opts s w)) (snd (close opts s w)) =
                     (rs, s', snd (close opts s w)) \<and>
                   length rs = n \<and>
                   list_all (\<lambda>r. r = Throws AbortError \<or> r = Throws TypeError) rs \<and>
                   (sendable (currentLastEventId s) \<longrightarrow> rs = replicate n (Throws AbortError))"
    using a run_signal_aborted[of opts "snd (close opts s w)" p "fst (close opts s w)" n]
    by (simp add: close_def)
qed (simp_all add: close_def)

theorem close_clears_and_aborts_witness:
  "useSSEStream (url_only_options\<lparr>abortController := True\<rparr>) =
     Inr (base_options\<lparr>abortController := True\<rparr>, constructor base_options) \<and>
   close (base_options\<lparr>abortController := True\<rparr>)
      \<lparr>retryCount = 0, currentLastEventId = Some ''7'',
       stream = Some \<lparr>queued = [message ''b'' None], ending = Hangs\<rparr>, reader = True\<rparr>
      \<lparr>fetches = [Response 200 (Some \<lparr>queued = [message ''c'' None], ending = Hangs\<rparr>)],
       timers = [], aborted = False, log = []\<rparr> =
     (\<lparr>retryCount = 0, currentLastEventId = Some ''7'', stream = None, reader = False\<rparr>,
      \<lparr>fetches = [Response 200 (Some \<lparr>queued = [message ''c'' None], ending = Hangs\<rparr>)],
       timers = [], aborted = True, log = [Cancel]\<rparr>) \<and>
   (\<exists>s'. run (base_options\<lparr>abortController := True\<rparr>) (replicate 2 Pull)
      \<lparr>retryCount = 0, currentLastEventId = Some ''7'', stream = None, reader = False\<rparr>
      \<lparr>fetches = [Response 200 (Some \<lparr>queued = [message ''c'' None], ending = Hangs\<rparr>)],
       timers = [], aborted = True, log = [Cancel]\<rparr> =
     ([Throws AbortError, Throws AbortError], s',
      \<lparr>fetches = [Response 200 (Some \<lparr>queued = [message ''c'' None], ending = Hangs\<rparr>)],
       timers = [], aborted = True, log = [Cancel]\<rparr>))"
proof -
  let ?o = "base_options\<lparr>abortController := True\<rparr>"
  let ?s = "\<lparr>retryCount = 0, currentLastEventId = Some ''7'',
       stream = Some \<lparr>queued = [message ''b'' None], ending = Hangs\<rparr>, reader = True\<rparr>"
  let ?w = "\<lparr>fetches = [Response 200 (Some \<lparr>queued = [message ''c'' None], ending = Hangs\<rparr>)],
       timers = [], aborted = False, log = []\<rparr>"
  have u: "useSSEStream (url_only_options\<lparr>abortController := True\<rparr>) = Inr (?o, constructor base_options)"
    by (simp add: useSSEStream_def normalizedOptions_def url_only_options_def base_options_def
        constructor_def)
  have c: "close ?o ?s ?w =
     (\<lparr>retryCount = 0, currentLastEventId = Some ''7'', stream = None, reader = False\<rparr>,
      \<lparr>fetches = [Response 200 (Some \<lparr>queued = [message ''c'' None], ending = Hangs\<rparr>)],
       timers = [], aborted = True, log = [Cancel]\<rparr>)"
    by (simp add: close_def base_options_def)
  have o: "abortController ?o \<and> url ?o = Url ''https:''" by (simp add: base_options_def)
  note t = close_clears_and_aborts[of "url_only_options\<lparr>abortController := True\<rparr>" ?o
      "constructor base_options" ?o ?s ?w "''https:''"]
  have sd: "sendable (currentLastEventId ?s)"
    by (simp add: sendable_def normalize_value_def header_value_def http_whitespace_def)
  from t o sd have "\<exists>s'. run ?o (replicate 2 Pull) (fst (close ?o ?s ?w)) (snd (close ?o ?s ?w)) =
                  (replicate 2 (Throws AbortError), s', snd (close ?o ?s ?w))"
    by blast
  then show ?thesis using u c by (simp add: numeral_2_eq_2)
qed

lemma request_headers_falsy:
  "\<not> truthy (currentLastEventId s) \<Longrightarrow>
   request_headers opts s ''Last-Event-ID'' = headers opts ''Last-Event-ID''"
  by (simp add: request_headers_def Let_def)

text \<open>
  C10. A frame with data whose last accepted \<open>id\<close> line has an empty value gives an event
  whose \<open>id\<close> is the empty string. When \<open>next\<close> yields an event with the empty string as
  its \<open>id\<close>, the cursor stays as it was. With the empty string as the cursor, the request
  gets no \<open>Last-Event-ID\<close> header from the cursor: the header is what the custom headers
  say, absent when they say nothing.
\<close>

theorem empty_id_keeps_cursor:
  "(data_values frame \<noteq> [] \<and> last_option (id_values frame) = Some [] \<longrightarrow>
      (\<exists>m. parse_frame frame = Some m \<and> id' m = Some [])) \<and>
   (stream s = Some st \<and> queued st = m # ms \<and> id' m = Some [] \<longrightarrow>
      next opts s w =
        (Returns (Yield m), s\<lparr>reader := True, stream := Some (st\<lparr>queued := ms\<rparr>)\<rparr>,
         w\<lparr>log := log w @ [Emit m]\<rparr>)) \<and>
   (currentLastEventId s' = Some [] \<longrightarrow>
      request_headers opts s' ''Last-Event-ID'' = headers opts ''Last-Event-ID'')"
proof (intro conjI impI)
  assume "data_values frame \<noteq> [] \<and> last_option (id_values frame) = Some []"
  then show "\<exists>m. parse_frame frame = Some m \<and> id' m = Some []"
    by (simp add: parse_frame_fields)
next
  assume a: "stream s = Some st \<and> queued st = m # ms \<and> id' m = Some []"
  then have "\<not> truthy (id' m)" by (simp add: truthy_def)
  then show "next opts s w =
        (Returns (Yield m), s\<lparr>reader := True, stream := Some (st\<lparr>queued := ms\<rparr>)\<rparr>,
         w\<lparr>log := log w @ [Emit m]\<rparr>)"
    using a next_yield[of s st m ms opts w] by simp
next
  assume "currentLastEventId s' = Some []"
  then show "request_headers opts s' ''Last-Event-ID'' = headers opts ''Last-Event-ID''"
    by (intro request_headers_falsy) (simp add: truthy_def)
qed

theorem empty_id_keeps_cursor_witness:
  "parse_frame ''id: 7\<newline>data: x\<newline>id:'' = Some (message ''x'' (Some [])) \<and>
   next base_options
     \<lparr>retryCount = 0, currentLastEventId = Some ''42'',
      stream = Some \<lparr>queued = [message ''x'' (Some [])], ending = Hangs\<rparr>, reader = True\<rparr>
     \<lparr>fetches = [], timers = [], aborted = False, log = []\<rparr> =
     (Returns (Yield (message ''x'' (Some []))),
      \<lparr>retryCount = 0, currentLastEventId = Some ''42'',
       stream = Some \<lparr>queued = [], ending = Hangs\<rparr>, reader = True\<rparr>,
      \<lparr>fetches = [], timers = [], aborted = False, log = [Emit (message ''x'' (Some []))]\<rparr>) \<and>
   request_headers base_options
     \<lparr>retryCount = 0, currentLastEventId = Some [], stream = None, reader = False\<rparr>
     ''Last-Event-ID'' = None"
proof -
  let ?f = "''id: 7\<newline>data: x\<newline>id:''"
  let ?s = "\<lparr>retryCount = 0, currentLastEventId = Some ''42'',
      stream = Some \<lparr>queued = [message ''x'' (Some [])], ending = Hangs\<rparr>, reader = True\<rparr>"
  let ?c = "\<lparr>retryCount = 0, currentLastEventId = Some [], stream = None, reader = False\<rparr>"
  have d: "data_values ?f \<noteq> []" "last_option (id_values ?f) = Some []"
    by (simp_all add: data_values_def id_values_def field_values_def values_of_def strip_space_def
        cons_head_def last_option_def)
  have p: "parse_frame ?f = Some (message ''x'' (Some []))"
    by (simp add: parse_frame_def build_message_def parse_line_def set_field_def init_fields_def
        strip_space_def cons_head_def message_def)
  note t = empty_id_keeps_cursor[of ?f ?s "\<lparr>queued = [message ''x'' (Some [])], ending = Hangs\<rparr>"
      "message ''x'' (Some [])" "[]" base_options
      "\<lparr>fetches = [], timers = [], aborted = False, log = []\<rparr>" ?c]
  show ?thesis using t d p by (simp add: message_def base_options_def)
qed

section \<open>The iterator: backoff and the cursor\<close>





























end
